theory Spec2Isabelle
  imports Complex_Main "HOL-Library.Word" "HOL-Library.AList"
begin

section \<open>JavaScript values as the metadata normalizer sees them\<close>

text \<open>
  \<open>makeFirestoreCompatible\<close> (index.js, lines 20-40) looks at a member value only
  through four observations: its truthiness, its \<open>typeof\<close>, whether its \<open>toString\<close>
  property is a function, and \<open>Buffer.isBuffer\<close>. The datatype keeps what these
  observations, the two conversions and the \<open>for ... in\<close> loop need.

  \<^item> Primitives carry their payload; the code only copies them. A number is carried
    as a real (the code never computes with one). A string is its sequence of code
    units, each below 256.
  \<^item> \<open>JFunction c\<close> is a function value; \<open>c\<close> says what a call of it as a method
    without arguments does: \<open>Some v\<close> returns \<open>v\<close>, \<open>None\<close> throws. It has no enumerable
    properties.
  \<^item> An object carries what \<open>o.toString\<close> is and does: \<open>NotCallable\<close> when
    \<open>typeof o.toString === 'function'\<close> fails (an object created with a null
    prototype, or one whose \<open>toString\<close> is overwritten by a non-function),
    \<open>Returns v\<close> when \<open>o.toString()\<close> evaluates to \<open>v\<close> (a text, unless the method is
    one that returns something else), \<open>Throws\<close> when the call raises (an array holding
    an object without \<open>toString\<close>, say). Its list is what \<open>for (const key in o)\<close>
    visits, each key with \<open>o[key]\<close>, in that order.
  \<^item> A Buffer carries the same and its bytes. Every Buffer of the Node runtime
    inherits \<open>Buffer.prototype.toString\<close>, which with no argument decodes the bytes
    as UTF-8.

  Values are finite trees: an object that contains itself is not among them. Reading a
  property and calling \<open>toString\<close> change nothing the normalizer looks at afterwards.
\<close>

type_synonym byte = "8 word"

datatype 'a tostring = NotCallable | Returns 'a | Throws

datatype jsval =
    JUndefined
  | JNull
  | JBool bool
  | JNum real
  | JStr string
  | JFunction "jsval option"
  | JBuffer "jsval tostring" "byte list" "(string \<times> jsval) list"
  | JObject "jsval tostring" "(string \<times> jsval) list"

text \<open>What the normalizer can raise: the TypeError of calling a \<open>toString\<close> that is
  not a function (line 29), the runtime's RangeError when the call stack has no room
  for another call (line 32), and whatever a \<open>toString\<close> method throws (line 26).\<close>

datatype js_error = TypeError | RangeError | Thrown

fun truthy :: "jsval \<Rightarrow> bool" where
  "truthy JUndefined = False"
| "truthy JNull = False"
| "truthy (JBool b) = b"
| "truthy (JNum x) = (x \<noteq> 0)"
| "truthy (JStr s) = (s \<noteq> [])"
| "truthy (JFunction c) = True"
| "truthy (JBuffer t bs ps) = True"
| "truthy (JObject t ps) = True"

fun typeof :: "jsval \<Rightarrow> string" where
  "typeof JUndefined = ''undefined''"
| "typeof JNull = ''object''"
| "typeof (JBool b) = ''boolean''"
| "typeof (JNum x) = ''number''"
| "typeof (JStr s) = ''string''"
| "typeof (JFunction c) = ''function''"
| "typeof (JBuffer t bs ps) = ''object''"
| "typeof (JObject t ps) = ''object''"

text \<open>What \<open>v.toString\<close> is and does. Only asked of non-null objects.\<close>

fun toString_of :: "jsval \<Rightarrow> jsval tostring" where
  "toString_of (JBuffer t bs ps) = t"
| "toString_of (JObject t ps) = t"
| "toString_of v = NotCallable"

fun isBuffer :: "jsval \<Rightarrow> bool" where
  "isBuffer (JBuffer t bs ps) = True"
| "isBuffer v = False"

text \<open>The decimal text of an index, as a property key.\<close>

definition digit :: "nat \<Rightarrow> char" where
  "digit d = ''0123456789'' ! (d mod 10)"

function decimal :: "nat \<Rightarrow> string" where
  "decimal i = (if i < 10 then [digit i] else decimal (i div 10) @ [digit (i mod 10)])"
  by pat_completeness auto
termination
  by (relation "measure (\<lambda>i. i)") auto

declare decimal.simps [simp del]


text \<open>\<open>for ... in\<close> over a string visits its indices, each with the one-character string
  at it.\<close>

definition string_indices :: "string \<Rightarrow> (string \<times> jsval) list" where
  "string_indices s = map (\<lambda>i. (decimal i, JStr [s ! i])) [0..<length s]"

text \<open>The members \<open>for (const key in data)\<close> visits, each with \<open>data[key]\<close>. Over
  \<open>undefined\<close>, \<open>null\<close>, a boolean, a number or a function the loop body never runs.\<close>

fun for_in :: "jsval \<Rightarrow> (string \<times> jsval) list" where
  "for_in (JObject t ps) = ps"
| "for_in (JBuffer t bs ps) = ps"
| "for_in (JStr s) = string_indices s"
| "for_in v = []"

text \<open>
  The object \<open>result\<close> while the loop fills it: its prototype and its own members in the
  order of their first assignment. \<open>const result = {}\<close> starts it with
  \<open>Object.prototype\<close> and no member.
\<close>

datatype proto = ObjectPrototype | NullPrototype | Inherits jsval

type_synonym result_object = "proto \<times> (string \<times> jsval) list"

definition empty_object :: result_object where
  "empty_object = (ObjectPrototype, [])"

fun is_object :: "jsval \<Rightarrow> bool" where
  "is_object (JObject t ps) = True"
| "is_object (JBuffer t bs ps) = True"
| "is_object (JFunction c) = True"
| "is_object v = False"

text \<open>
  \<open>result[key] = v\<close>. For every key but one this creates or overwrites an own member.
  The key \<open>__proto__\<close> names the accessor of \<open>Object.prototype\<close> instead: the assignment
  creates no member; it makes \<open>v\<close> the prototype of \<open>result\<close> when \<open>v\<close> is an object, a
  function or \<open>null\<close>, and does nothing otherwise. (Once a function is the prototype,
  an assignment to the name of one of that function's own read-only properties would
  not create a member either; the model carries no such properties and treats the
  assignments that follow as ordinary.)
\<close>

definition assign :: "result_object \<Rightarrow> string \<Rightarrow> jsval \<Rightarrow> result_object" where
  "assign result key v =
     (if key = ''__proto__'' then
        (if v = JNull then (NullPrototype, snd result)
         else if is_object v then (Inherits v, snd result)
         else result)
      else (fst result, AList.update key v (snd result)))"

text \<open>What \<open>result\<close> inherits: the \<open>toString\<close> of its prototype chain as it acts on
  \<open>result\<close> (\<open>Function.prototype.toString\<close> raises on a receiver that is no function; the
  \<open>toString\<close> of an object is taken to act on an object inheriting from it as on
  itself), and the members \<open>for ... in\<close> visits after the own ones.\<close>

fun inherited_toString :: "proto \<Rightarrow> jsval tostring" where
  "inherited_toString ObjectPrototype = Returns (JStr ''[object Object]'')"
| "inherited_toString NullPrototype = NotCallable"
| "inherited_toString (Inherits (JFunction c)) = Throws"
| "inherited_toString (Inherits v) = toString_of v"

fun inherited_members :: "proto \<Rightarrow> (string \<times> jsval) list" where
  "inherited_members (Inherits v) = for_in v"
| "inherited_members p = []"

text \<open>A member named \<open>toString\<close> shadows the inherited method: it is callable only when
  it is a function.\<close>

definition own_toString ::
  "(string \<times> jsval) list \<Rightarrow> jsval tostring \<Rightarrow> jsval tostring" where
  "own_toString ps inherited =
     (case map_of ps ''toString'' of
        None \<Rightarrow> inherited
      | Some (JFunction c) \<Rightarrow> (case c of None \<Rightarrow> Throws | Some r \<Rightarrow> Returns r)
      | Some v \<Rightarrow> NotCallable)"

text \<open>\<open>return result\<close>: the finished object as a value.\<close>

definition returned :: "result_object \<Rightarrow> jsval" where
  "returned result =
     (let members = snd result @
            filter (\<lambda>m. fst m \<notin> set (map fst (snd result))) (inherited_members (fst result))
      in JObject (own_toString members (inherited_toString (fst result))) members)"

text \<open>An object literal \<open>{...}\<close> with no member named \<open>toString\<close>: it inherits
  \<open>Object.prototype.toString\<close>.\<close>

definition plain :: "(string \<times> jsval) list \<Rightarrow> jsval" where
  "plain ps = JObject (Returns (JStr ''[object Object]'')) ps"

text \<open>An object without a callable \<open>toString\<close>, such as \<open>Object.create(null)\<close> with
  members added.\<close>

definition bare :: "(string \<times> jsval) list \<Rightarrow> jsval" where
  "bare ps = JObject NotCallable ps"

section \<open>makeFirestoreCompatible\<close>

text \<open>
  \<^verbatim>\<open>
  const makeFirestoreCompatible = (data) => {
      const result = {};
      for (const key in data) {
          if (data[key] && typeof data[key] === 'object') {
              if (typeof data[key].toString === 'function') {
                  result[key] = data[key].toString();
              } else if (Buffer.isBuffer(data[key])) {
                  result[key] = data[key].toString('base64');
              } else {
                  result[key] = makeFirestoreCompatible(data[key]);
              }
          } else {
              result[key] = data[key];
          }
      }
      return result;
  };
  \<close>
  The Buffer branch is entered only when \<open>toString\<close> is not a function, so its call
  \<open>data[key].toString('base64')\<close> raises a TypeError. \<open>for_loop\<close> is the loop, with
  \<open>result\<close> as it stands and the members still to visit.

  The function has no depth argument and no guard: each nested object costs one more
  activation on the call stack of the runtime. The first argument is the number of
  activations of \<open>makeFirestoreCompatible\<close> the stack still has room for; a call made
  when there is room for none raises the runtime's RangeError. (The calls of
  \<open>toString\<close> and \<open>Buffer.isBuffer\<close> inside an activation are taken to fit with it.)
\<close>

function makeFirestoreCompatible :: "nat \<Rightarrow> jsval \<Rightarrow> js_error + jsval"
  and for_loop :: "nat \<Rightarrow> result_object \<Rightarrow> (string \<times> jsval) list \<Rightarrow> js_error + result_object"
where
  "makeFirestoreCompatible 0 data = Inl RangeError"
| "makeFirestoreCompatible (Suc frames) data =
     (case for_loop frames empty_object (for_in data) of
        Inl e \<Rightarrow> Inl e
      | Inr result \<Rightarrow> Inr (returned result))"
| "for_loop frames result [] = Inr result"
| "for_loop frames result ((key, v) # rest) =
     (if truthy v \<and> typeof v = ''object'' then
        (case toString_of v of
           Returns r \<Rightarrow> for_loop frames (assign result key r) rest
         | Throws \<Rightarrow> Inl Thrown
         | NotCallable \<Rightarrow>
             if isBuffer v then Inl TypeError
             else (case makeFirestoreCompatible frames v of
                     Inl e \<Rightarrow> Inl e
                   | Inr r \<Rightarrow> for_loop frames (assign result key r) rest))
      else for_loop frames (assign result key v) rest)"
  by pat_completeness auto
termination
  apply (relation "inv_image (less_than <*lex*> less_than) (\<lambda>x. case x of
            Inl (frames, data) \<Rightarrow> (frames, 2 * size data + 1)
          | Inr (frames, result, ms) \<Rightarrow> (frames, 2 * size_list (size_prod (\<lambda>k. 0) size) ms))")
      apply (auto intro!: wf_inv_image)
  done

declare makeFirestoreCompatible.simps [simp del]

section \<open>What the specification measures the normalizer against\<close>


text \<open>A member the loop hands to the recursive call of line 32.\<close>

definition walked :: "jsval \<Rightarrow> bool" where
  "walked v =
     (truthy v \<and> typeof v = ''object'' \<and> toString_of v = NotCallable \<and> \<not> isBuffer v)"


text \<open>Keys as \<open>for ... in\<close> gives them, none of them the accessor name \<open>__proto__\<close>.\<close>

definition keys_ok :: "(string \<times> jsval) list \<Rightarrow> bool" where
  "keys_ok ps = (distinct (map fst ps) \<and> ''__proto__'' \<notin> set (map fst ps))"


text \<open>\<open>nest n\<close>: \<open>n + 1\<close> objects without \<open>toString\<close>, each the only member of the one
  around it; the normalizer recurses into every one of them.\<close>

fun nest :: "nat \<Rightarrow> jsval" where
  "nest 0 = bare []"
| "nest (Suc n) = bare [(''k'', nest n)]"


text \<open>Base64 (RFC 4648, with padding), which is what \<open>buf.toString('base64')\<close> produces
  for a Buffer that has its method.\<close>

definition base64_alphabet :: string where
  "base64_alphabet = ''ABCDEFGHIJKLMNOPQRSTUVWXYZabcdefghijklmnopqrstuvwxyz0123456789+/''"

definition base64_char :: "nat \<Rightarrow> char" where
  "base64_char n = base64_alphabet ! (n mod 64)"

fun base64_encode :: "byte list \<Rightarrow> string" where
  "base64_encode [] = []"
| "base64_encode [a] =
     [base64_char (unat a div 4), base64_char ((unat a mod 4) * 16), CHR ''='', CHR ''='']"
| "base64_encode [a, b] =
     [base64_char (unat a div 4), base64_char ((unat a mod 4) * 16 + unat b div 16),
      base64_char ((unat b mod 16) * 4), CHR ''='']"
| "base64_encode (a # b # c # rest) =
     [base64_char (unat a div 4), base64_char ((unat a mod 4) * 16 + unat b div 16),
      base64_char ((unat b mod 16) * 4 + unat c div 64), base64_char (unat c mod 64)]
     @ base64_encode rest"

text \<open>\<open>Buffer.from(s)\<close> for a text \<open>s\<close> of ASCII characters: one byte per character, and
  \<open>toString()\<close> gives \<open>s\<close> back. \<open>ms\<close> is what \<open>for ... in\<close> visits on it (its indices,
  and whatever of \<open>Buffer.prototype\<close> the runtime makes enumerable).\<close>

definition buffer_from_ascii :: "string \<Rightarrow> (string \<times> jsval) list \<Rightarrow> jsval" where
  "buffer_from_ascii s ms =
     JBuffer (Returns (JStr s)) (map (\<lambda>c. of_nat (of_char c)) s) ms"

text \<open>The normalized shape of the specification: a primitive (string, number, boolean,
  null) or a mapping from keys to values of that shape. Base64 text is a string.\<close>

fun normalized_shape :: "jsval \<Rightarrow> bool"
  and normalized_members :: "(string \<times> jsval) list \<Rightarrow> bool"
where
  "normalized_shape JNull = True"
| "normalized_shape (JBool b) = True"
| "normalized_shape (JNum x) = True"
| "normalized_shape (JStr s) = True"
| "normalized_shape (JObject t ps) = normalized_members ps"
| "normalized_shape JUndefined = False"
| "normalized_shape (JFunction c) = False"
| "normalized_shape (JBuffer t bs ps) = False"
| "normalized_members [] = True"
| "normalized_members ((k, v) # ms) = (normalized_shape v \<and> normalized_members ms)"

text \<open>A member value the loop copies as it is: anything but a non-null object.\<close>

definition copied :: "jsval \<Rightarrow> bool" where
  "copied v = (\<not> (truthy v \<and> typeof v = ''object''))"

section \<open>Object keys and the paths derived from them\<close>

text \<open>\<open>s.split(c)\<close> for a one-character separator: never empty, so \<open>.pop()\<close> is its
  last segment.\<close>

fun split :: "string \<Rightarrow> char \<Rightarrow> string list" where
  "split [] c = [[]]"
| "split (x # xs) c =
     (if x = c then [] # split xs c
      else (case split xs c of
              [] \<Rightarrow> [[x]]
            | seg # segs \<Rightarrow> (x # seg) # segs))"

definition pop :: "string list \<Rightarrow> string" where
  "pop segs = last segs"

text \<open>\<open>fileName.split('/').pop()\<close>, written out at lines 68-70, 99 and 103.\<close>

definition basename :: "string \<Rightarrow> string" where
  "basename fname = pop (split fname CHR ''/'')"

definition tempFilePath :: "string \<Rightarrow> string" where
  "tempFilePath fname = ''/tmp/'' @ basename fname"

definition processedImagePath :: "string \<Rightarrow> string" where
  "processedImagePath fname = ''/tmp/processed-'' @ basename fname"

definition thumbnailPath :: "string \<Rightarrow> string" where
  "thumbnailPath fname = ''/tmp/thumbnail-'' @ basename fname"

definition thumbnailDestination :: "string \<Rightarrow> string" where
  "thumbnailDestination fname = ''thumbnail-'' @ basename fname"

definition processedDestination :: "string \<Rightarrow> string" where
  "processedDestination fname = ''processed-'' @ basename fname"

text \<open>\<open>fileName.startsWith('/') ? fileName.slice(1) : fileName\<close>\<close>

definition filePath :: "string \<Rightarrow> string" where
  "filePath fname = (if take 1 fname = ''/'' then drop 1 fname else fname)"

text \<open>The test \<open>fileName.match(/\.(jpg|jpeg|png|gif)$/i)\<close>: the key ends with a dot and
  one of the four extensions, letters compared without regard to case.\<close>

definition to_lower :: "char \<Rightarrow> char" where
  "to_lower c =
     (case map_of (zip ''ABCDEFGHIJKLMNOPQRSTUVWXYZ'' ''abcdefghijklmnopqrstuvwxyz'') c of
        None \<Rightarrow> c
      | Some l \<Rightarrow> l)"

definition ends_with :: "string \<Rightarrow> string \<Rightarrow> bool" where
  "ends_with s suf = (length suf \<le> length s \<and> drop (length s - length suf) s = suf)"

definition image_extensions :: "string list" where
  "image_extensions = [''jpg'', ''jpeg'', ''png'', ''gif'']"

definition matches_image_type :: "string \<Rightarrow> bool" where
  "matches_image_type fname =
     list_ex (\<lambda>ext. ends_with (map to_lower fname) (CHR ''.'' # ext)) image_extensions"

text \<open>The suffix of a key in the specification's sense: the text after its last dot, if
  it has a dot.\<close>

definition key_suffix :: "string \<Rightarrow> string option" where
  "key_suffix fname =
     (if CHR ''.'' \<in> set fname
      then Some (rev (takeWhile (\<lambda>c. c \<noteq> CHR ''.'') (rev fname)))
      else None)"

definition suffix_accepted :: "string \<Rightarrow> bool" where
  "suffix_accepted fname =
     (case key_suffix fname of
        None \<Rightarrow> False
      | Some e \<Rightarrow> map to_lower e \<in> set image_extensions)"

section \<open>The world of the handler\<close>

text \<open>
  The handler talks to Firestore (\<open>db\<close>), Cloud Storage (\<open>storage\<close>), \<open>sharp\<close>,
  \<open>exiftool\<close> and the local file system. Their state is a record; what each call
  answers, which the code cannot know, is a parameter (\<open>env\<close>). Every call to a remote
  collaborator is appended to \<open>calls\<close>, whether it succeeds or not. \<open>stack_frames\<close> is
  the room the call stack has for activations of \<open>makeFirestoreCompatible\<close> at line 96.
\<close>

definition SOURCE_BUCKET :: string where
  "SOURCE_BUCKET = ''image-upload-bucket-dm01''"

definition THUMBNAIL_BUCKET :: string where
  "THUMBNAIL_BUCKET = ''thumbnail-bucket-dm01''"

definition PROCESSED_BUCKET :: string where
  "PROCESSED_BUCKET = ''processed-images-bucket-dm01''"

datatype sharp_op = Resize nat nat | ToFormat string

text \<open>File contents: an object of the source bucket, the output of a \<open>sharp\<close> pipeline on
  some content, or what a failed write left behind.\<close>

datatype blob = SourceObject string | Sharp "sharp_op list" blob | Partial

record log_entry =
  fileName :: string
  sourceBucket :: string
  thumbnailBucket :: string
  processedBucket :: string
  basicMetadata :: jsval
  fullMetadata :: jsval
  timestamp :: string

datatype call =
    DbQuery string
  | Download string string
  | SharpMetadata string
  | SharpToFile "sharp_op list" string string
  | ExifRead string
  | Upload string string string
  | DbAdd log_entry
  | ExifEnd

datatype error =
    MissingFileName
  | QueryFailed
  | DownloadFailed
  | DerivationFailed
  | ExtractionFailed
  | NormalizationFailed js_error
  | UploadFailed
  | PersistFailed
  | UnlinkFailed
  | ExtractorEndFailed

text \<open>The three ways the handler returns without raising. The JavaScript function
  resolves to \<open>undefined\<close> in each; the tag says which \<open>return\<close> was taken.\<close>

datatype outcome = Processed log_entry | Skipped | Rejected

text \<open>A step that writes a local file succeeds, or fails and may leave a file behind.\<close>

datatype write_result = Written | WriteFails bool

record env =
  query_fails :: bool
  download_res :: write_result
  metadata_res :: "jsval option"
  resize_res :: write_result
  exif_read_res :: "jsval option"
  stack_frames :: nat
  upload_thumbnail_ok :: bool
  toFormat_res :: write_result
  upload_processed_ok :: bool
  add_ok :: bool
  now :: string
  unlink_ok :: "string \<Rightarrow> bool"
  end_ok :: bool

record world =
  fs :: "string \<rightharpoonup> blob"
  thumbnail_bucket :: "string \<rightharpoonup> blob"
  processed_bucket :: "string \<rightharpoonup> blob"
  image_logs :: "log_entry list"
  calls :: "call list"

record event =
  name :: "string option"

definition called :: "call \<Rightarrow> world \<Rightarrow> world" where
  "called c w = w\<lparr>calls := calls w @ [c]\<rparr>"

text \<open>Lines 54-57: \<open>db.collection('image_logs').where('fileName', '==', fileName).limit(1).get()\<close>\<close>

definition db_query :: "env \<Rightarrow> string \<Rightarrow> world \<Rightarrow> (error + log_entry list) \<times> world" where
  "db_query e fname w =
     (if query_fails e then (Inl QueryFailed, called (DbQuery fname) w)
      else (Inr (take 1 (filter (\<lambda>r. fileName r = fname) (image_logs w))),
            called (DbQuery fname) w))"

text \<open>A write of \<open>content\<close> to the local file \<open>dest\<close>.\<close>

definition write_file :: "write_result \<Rightarrow> error \<Rightarrow> string \<Rightarrow> blob \<Rightarrow> world \<Rightarrow> (error + unit) \<times> world" where
  "write_file res err dest content w =
     (case res of
        Written \<Rightarrow> (Inr (), w\<lparr>fs := (fs w)(dest \<mapsto> content)\<rparr>)
      | WriteFails leaves \<Rightarrow>
          (Inl err, if leaves then w\<lparr>fs := (fs w)(dest \<mapsto> Partial)\<rparr> else w))"

text \<open>Line 79: \<open>sourceBucket.file(filePath).download({ destination })\<close>\<close>

definition download :: "env \<Rightarrow> string \<Rightarrow> string \<Rightarrow> world \<Rightarrow> (error + unit) \<times> world" where
  "download e src dest w =
     write_file (download_res e) DownloadFailed dest (SourceObject src)
       (called (Download src dest) w)"

text \<open>Line 89: \<open>image.metadata()\<close>\<close>

definition sharp_metadata :: "env \<Rightarrow> string \<Rightarrow> world \<Rightarrow> (error + jsval) \<times> world" where
  "sharp_metadata e input w =
     (case metadata_res e of
        None \<Rightarrow> (Inl DerivationFailed, called (SharpMetadata input) w)
      | Some m \<Rightarrow> (Inr m, called (SharpMetadata input) w))"

text \<open>Lines 90 and 102: \<open>image. ... .toFile(dest)\<close>, where \<open>ops\<close> are the operations set on
  the one \<open>sharp\<close> instance so far. A missing input file fails the step.\<close>

definition sharp_toFile :: "write_result \<Rightarrow> sharp_op list \<Rightarrow> string \<Rightarrow> string \<Rightarrow> world \<Rightarrow> (error + unit) \<times> world" where
  "sharp_toFile res ops input dest w =
     (case fs w input of
        None \<Rightarrow> (Inl DerivationFailed, called (SharpToFile ops input dest) w)
      | Some content \<Rightarrow>
          write_file res DerivationFailed dest (Sharp ops content)
            (called (SharpToFile ops input dest) w))"

text \<open>Line 93: \<open>exiftool.read(tempFilePath)\<close>\<close>

definition exiftool_read :: "env \<Rightarrow> string \<Rightarrow> world \<Rightarrow> (error + jsval) \<times> world" where
  "exiftool_read e input w =
     (case exif_read_res e of
        None \<Rightarrow> (Inl ExtractionFailed, called (ExifRead input) w)
      | Some tags \<Rightarrow> (Inr tags, called (ExifRead input) w))"

text \<open>Lines 99 and 103: \<open>bucket.upload(localPath, { destination })\<close>\<close>

definition upload_thumbnail :: "env \<Rightarrow> string \<Rightarrow> string \<Rightarrow> world \<Rightarrow> (error + unit) \<times> world" where
  "upload_thumbnail e local dest w =
     (case fs w local of
        None \<Rightarrow> (Inl UploadFailed, called (Upload THUMBNAIL_BUCKET local dest) w)
      | Some content \<Rightarrow>
          if upload_thumbnail_ok e
          then (Inr (), (called (Upload THUMBNAIL_BUCKET local dest) w)
                  \<lparr>thumbnail_bucket := (thumbnail_bucket w)(dest \<mapsto> content)\<rparr>)
          else (Inl UploadFailed, called (Upload THUMBNAIL_BUCKET local dest) w))"

definition upload_processed :: "env \<Rightarrow> string \<Rightarrow> string \<Rightarrow> world \<Rightarrow> (error + unit) \<times> world" where
  "upload_processed e local dest w =
     (case fs w local of
        None \<Rightarrow> (Inl UploadFailed, called (Upload PROCESSED_BUCKET local dest) w)
      | Some content \<Rightarrow>
          if upload_processed_ok e
          then (Inr (), (called (Upload PROCESSED_BUCKET local dest) w)
                  \<lparr>processed_bucket := (processed_bucket w)(dest \<mapsto> content)\<rparr>)
          else (Inl UploadFailed, called (Upload PROCESSED_BUCKET local dest) w))"

text \<open>Line 115: \<open>db.collection('image_logs').add(logEntry)\<close>\<close>

definition db_add :: "env \<Rightarrow> log_entry \<Rightarrow> world \<Rightarrow> (error + unit) \<times> world" where
  "db_add e entry w =
     (if add_ok e
      then (Inr (), (called (DbAdd entry) w)\<lparr>image_logs := image_logs w @ [entry]\<rparr>)
      else (Inl PersistFailed, called (DbAdd entry) w))"

text \<open>Lines 130-132: \<open>if (fs.existsSync(p)) fs.unlinkSync(p)\<close>\<close>

definition unlink_if_exists :: "env \<Rightarrow> string \<Rightarrow> world \<Rightarrow> (error + unit) \<times> world" where
  "unlink_if_exists e p w =
     (if fs w p \<noteq> None
      then (if unlink_ok e p then (Inr (), w\<lparr>fs := (fs w)(p := None)\<rparr>)
            else (Inl UnlinkFailed, w))
      else (Inr (), w))"

text \<open>Line 135: \<open>exiftool.end()\<close>\<close>

definition exiftool_end :: "env \<Rightarrow> world \<Rightarrow> (error + unit) \<times> world" where
  "exiftool_end e w =
     (if end_ok e then (Inr (), called ExifEnd w) else (Inl ExtractorEndFailed, called ExifEnd w))"

section \<open>processImage\<close>

text \<open>The \<open>try\<close> block, lines 72-117. A step that raises ends the block with its error;
  the \<open>catch\<close> block (lines 118-127) logs the error and raises it again, so the block's
  result is already what leaves the \<open>catch\<close>.\<close>

definition try_block :: "env \<Rightarrow> string \<Rightarrow> world \<Rightarrow> (error + outcome) \<times> world" where
  "try_block e fname w0 =
     (case download e (filePath fname) (tempFilePath fname) w0 of
        (Inl err, w1) \<Rightarrow> (Inl err, w1)
      | (Inr _, w1) \<Rightarrow>
     if \<not> matches_image_type fname then (Inr Rejected, w1)
     else
     (case sharp_metadata e (tempFilePath fname) w1 of
        (Inl err, w2) \<Rightarrow> (Inl err, w2)
      | (Inr basic, w2) \<Rightarrow>
     (case sharp_toFile (resize_res e) [Resize 200 200] (tempFilePath fname) (thumbnailPath fname) w2 of
        (Inl err, w3) \<Rightarrow> (Inl err, w3)
      | (Inr _, w3) \<Rightarrow>
     (case exiftool_read e (tempFilePath fname) w3 of
        (Inl err, w4) \<Rightarrow> (Inl err, w4)
      | (Inr full, w4) \<Rightarrow>
     (case makeFirestoreCompatible (stack_frames e) full of
        Inl err \<Rightarrow> (Inl (NormalizationFailed err), w4)
      | Inr firestoreMetadata \<Rightarrow>
     (case upload_thumbnail e (thumbnailPath fname) (thumbnailDestination fname) w4 of
        (Inl err, w5) \<Rightarrow> (Inl err, w5)
      | (Inr _, w5) \<Rightarrow>
     (case sharp_toFile (toFormat_res e) [Resize 200 200, ToFormat ''jpeg'']
             (tempFilePath fname) (processedImagePath fname) w5 of
        (Inl err, w6) \<Rightarrow> (Inl err, w6)
      | (Inr _, w6) \<Rightarrow>
     (case upload_processed e (processedImagePath fname) (processedDestination fname) w6 of
        (Inl err, w7) \<Rightarrow> (Inl err, w7)
      | (Inr _, w7) \<Rightarrow>
     (let logEntry = \<lparr>fileName = fname, sourceBucket = SOURCE_BUCKET,
                       thumbnailBucket = THUMBNAIL_BUCKET, processedBucket = PROCESSED_BUCKET,
                       basicMetadata = basic, fullMetadata = firestoreMetadata,
                       timestamp = now e\<rparr>
      in (case db_add e logEntry w7 of
            (Inl err, w8) \<Rightarrow> (Inl err, w8)
          | (Inr _, w8) \<Rightarrow> (Inr (Processed logEntry), w8)))))))))))"

text \<open>The \<open>finally\<close> block, lines 128-136: \<open>Some err\<close> when one of its own steps raises,
  which ends the block there.\<close>

definition finally_block :: "env \<Rightarrow> string \<Rightarrow> world \<Rightarrow> error option \<times> world" where
  "finally_block e fname w0 =
     (case unlink_if_exists e (tempFilePath fname) w0 of
        (Inl err, w1) \<Rightarrow> (Some err, w1)
      | (Inr _, w1) \<Rightarrow>
     (case unlink_if_exists e (thumbnailPath fname) w1 of
        (Inl err, w2) \<Rightarrow> (Some err, w2)
      | (Inr _, w2) \<Rightarrow>
     (case unlink_if_exists e (processedImagePath fname) w2 of
        (Inl err, w3) \<Rightarrow> (Some err, w3)
      | (Inr _, w3) \<Rightarrow>
     (case exiftool_end e w3 of
        (Inl err, w4) \<Rightarrow> (Some err, w4)
      | (Inr _, w4) \<Rightarrow> (None, w4)))))"

text \<open>\<open>a || b\<close> on the \<open>name\<close> property, and \<open>!fileName\<close>: an absent name and the empty
  string are falsy.\<close>

definition falsy_name :: "string option \<Rightarrow> bool" where
  "falsy_name n = (case n of None \<Rightarrow> True | Some s \<Rightarrow> s = [])"

definition or_name :: "string option \<Rightarrow> string option \<Rightarrow> string option" where
  "or_name a b = (if falsy_name a then b else a)"

text \<open>The handler, lines 42-137. Lines 44-62 run before the \<open>try\<close>: a missing name
  raises and an already recorded name returns, both without reaching \<open>finally\<close>. An
  error raised in \<open>finally\<close> replaces the result of the \<open>try\<close>.\<close>

definition processImage :: "env \<Rightarrow> event \<Rightarrow> world \<Rightarrow> (error + outcome) \<times> world" where
  "processImage e ev w =
     (let file = ev in
      case or_name (name file) (name ev) of
        None \<Rightarrow> (Inl MissingFileName, w)
      | Some fname \<Rightarrow>
          if falsy_name (Some fname) then (Inl MissingFileName, w)
          else
            (case db_query e fname w of
               (Inl err, w1) \<Rightarrow> (Inl err, w1)
             | (Inr existingLog, w1) \<Rightarrow>
                 if existingLog \<noteq> [] then (Inr Skipped, w1)
                 else
                   (case try_block e fname w1 of (r, w2) \<Rightarrow>
                    (case finally_block e fname w2 of
                       (Some err, w3) \<Rightarrow> (Inl err, w3)
                     | (None, w3) \<Rightarrow> (r, w3)))))"

text \<open>How often the extractor process was shut down in a call log.\<close>

definition releases :: "call list \<Rightarrow> nat" where
  "releases cs = count_list cs ExifEnd"

text \<open>The invocation reaches the \<open>try\<close> block: it has a name, the idempotency query
  answers, and the answer is empty.\<close>

definition enters_try :: "env \<Rightarrow> event \<Rightarrow> world \<Rightarrow> bool" where
  "enters_try e ev w =
     (case name ev of
        None \<Rightarrow> False
      | Some fname \<Rightarrow>
          fname \<noteq> [] \<and> \<not> query_fails e \<and> filter (\<lambda>r. fileName r = fname) (image_logs w) = [])"

text \<open>The local files of one invocation, lines 68-70.\<close>

definition temp_paths :: "string \<Rightarrow> string list" where
  "temp_paths fname = [tempFilePath fname, thumbnailPath fname, processedImagePath fname]"

text \<open>The extractor answers and its answer normalizes without an error.\<close>

definition normalizes :: "env \<Rightarrow> bool" where
  "normalizes e =
     (case exif_read_res e of
        None \<Rightarrow> False
      | Some tags \<Rightarrow> \<not> isl (makeFirestoreCompatible (stack_frames e) tags))"

text \<open>Every step of the \<open>try\<close> block up to and including the two uploads succeeds.\<close>

definition uploads_succeed :: "env \<Rightarrow> string \<Rightarrow> bool" where
  "uploads_succeed e fname =
     (download_res e = Written \<and> matches_image_type fname \<and> metadata_res e \<noteq> None \<and>
      resize_res e = Written \<and> normalizes e \<and> upload_thumbnail_ok e \<and>
      toFormat_res e = Written \<and> upload_processed_ok e)"

text \<open>The record of lines 106-114, for the probed attributes \<open>basic\<close> and the normalized
  tags \<open>full\<close>.\<close>

definition logEntry_of :: "env \<Rightarrow> string \<Rightarrow> jsval \<Rightarrow> jsval \<Rightarrow> log_entry" where
  "logEntry_of e fname basic full =
     \<lparr>fileName = fname, sourceBucket = SOURCE_BUCKET, thumbnailBucket = THUMBNAIL_BUCKET,
      processedBucket = PROCESSED_BUCKET, basicMetadata = basic, fullMetadata = full,
      timestamp = now e\<rparr>"

text \<open>The local files an event's invocation may create.\<close>

definition event_paths :: "event \<Rightarrow> string list" where
  "event_paths ev = (case name ev of None \<Rightarrow> [] | Some fname \<Rightarrow> temp_paths fname)"

text \<open>The collaborator calls one invocation adds to the log.\<close>

definition new_calls :: "world \<Rightarrow> world \<Rightarrow> call list" where
  "new_calls w w' = drop (length (calls w)) (calls w')"

text \<open>The calls of a run that reaches the insert, up to the insert.\<close>

definition calls_to_insert :: "string \<Rightarrow> log_entry \<Rightarrow> call list" where
  "calls_to_insert fname entry =
     [DbQuery fname,
      Download (filePath fname) (tempFilePath fname),
      SharpMetadata (tempFilePath fname),
      SharpToFile [Resize 200 200] (tempFilePath fname) (thumbnailPath fname),
      ExifRead (tempFilePath fname),
      Upload THUMBNAIL_BUCKET (thumbnailPath fname) (thumbnailDestination fname),
      SharpToFile [Resize 200 200, ToFormat ''jpeg''] (tempFilePath fname) (processedImagePath fname),
      Upload PROCESSED_BUCKET (processedImagePath fname) (processedDestination fname),
      DbAdd entry]"

text \<open>What the two uploads of a key put into the buckets.\<close>

definition thumbnail_of :: "string \<Rightarrow> blob" where
  "thumbnail_of fname = Sharp [Resize 200 200] (SourceObject (filePath fname))"

definition processed_of :: "string \<Rightarrow> blob" where
  "processed_of fname = Sharp [Resize 200 200, ToFormat ''jpeg''] (SourceObject (filePath fname))"

section \<open>Sample inputs\<close>

definition sample_tags :: jsval where
  "sample_tags = plain [(''Make'', JStr ''Canon''), (''ImageWidth'', JNum 1920)]"

definition sample_basic :: jsval where
  "sample_basic = plain [(''width'', JNum 1920), (''height'', JNum 1080)]"

definition env_ok :: env where
  "env_ok = \<lparr>query_fails = False, download_res = Written, metadata_res = Some sample_basic,
             resize_res = Written, exif_read_res = Some sample_tags, stack_frames = 10000,
             upload_thumbnail_ok = True,
             toFormat_res = Written, upload_processed_ok = True, add_ok = True,
             now = ''2024-05-01T10:00:00.000Z'', unlink_ok = (\<lambda>p. True), end_ok = True\<rparr>"

definition world0 :: world where
  "world0 = \<lparr>fs = Map.empty, thumbnail_bucket = Map.empty, processed_bucket = Map.empty,
             image_logs = [], calls = []\<rparr>"

definition sample_entry :: "string \<Rightarrow> log_entry" where
  "sample_entry fname = logEntry_of env_ok fname sample_basic sample_tags"

definition event_of :: "string \<Rightarrow> event" where
  "event_of fname = \<lparr>name = Some fname\<rparr>"

section \<open>Facts about the normalizer\<close>

lemma mfc_frames:
  "makeFirestoreCompatible frames data =
     (if frames = 0 then Inl RangeError
      else (case for_loop (frames - 1) empty_object (for_in data) of
              Inl e \<Rightarrow> Inl e
            | Inr result \<Rightarrow> Inr (returned result)))"
  by (cases frames) (simp_all add: makeFirestoreCompatible.simps)

lemmas result_defs = empty_object_def assign_def returned_def own_toString_def

text \<open>The recursive call is only reached by an object that is not a Buffer.\<close>

lemma walked_is_object: "walked v \<Longrightarrow> \<exists>t ps. v = JObject t ps"
  by (cases v) (simp_all add: walked_def)

lemma update_fresh: "k \<notin> fst ` set al \<Longrightarrow> AList.update k v al = al @ [(k, v)]"
  by (induction al) auto

lemma assign_fresh:
  "key \<noteq> ''__proto__'' \<Longrightarrow> key \<notin> fst ` set own \<Longrightarrow>
   assign (p, own) key v = (p, own @ [(key, v)])"
  by (simp add: assign_def update_fresh)





















text \<open>Members that are all copied come out of the loop as they went in.\<close>

lemma for_loop_copies:
  "list_all (\<lambda>m. copied (snd m)) ms \<Longrightarrow> distinct (map fst own @ map fst ms) \<Longrightarrow>
   ''__proto__'' \<notin> set (map fst ms) \<Longrightarrow>
   for_loop frames (p, own) ms = Inr (p, own @ ms)"
proof (induction ms arbitrary: own)
  case Nil
  then show ?case by simp
next
  case (Cons m ms)
  obtain k v where m: "m = (k, v)" by (cases m)
  from Cons.prems m have fresh: "k \<notin> fst ` set own" "k \<noteq> ''__proto__''" and cp: "copied v"
    by auto
  from Cons.prems m have "distinct (map fst (own @ [(k, v)]) @ map fst ms)" by auto
  with Cons.IH[of "own @ [(k, v)]"] Cons.prems m
  have "for_loop frames (p, own @ [(k, v)]) ms = Inr (p, (own @ [(k, v)]) @ ms)" by simp
  moreover from cp have "\<not> (truthy v \<and> typeof v = ''object'')" by (simp add: copied_def)
  then have "for_loop frames (p, own) ((k, v) # ms) = for_loop frames (assign (p, own) k v) ms"
    by auto
  ultimately show ?case using fresh m by (simp add: assign_fresh)
qed

text \<open>Every branch of the loop assigns to \<open>result[key]\<close>, so a loop that returns has
  assigned every key it visited; without the key \<open>__proto__\<close> each assignment makes a
  member and leaves the prototype alone.\<close>

lemma for_loop_keys:
  "for_loop frames result ms = Inr r \<Longrightarrow> ''__proto__'' \<notin> set (map fst ms) \<Longrightarrow>
   fst r = fst result \<and> fst ` set (snd r) = fst ` set (snd result) \<union> fst ` set ms"
proof (induction ms arbitrary: result r)
  case Nil
  then show ?case by simp
next
  case (Cons m ms)
  obtain k v where m: "m = (k, v)" by (cases m)
  from Cons.prems m obtain x where "for_loop frames (assign result k x) ms = Inr r"
    by (auto split: if_splits tostring.splits sum.splits)
  from Cons.IH[OF this] Cons.prems(2) m show ?case
    by (auto simp: assign_def dom_update)
qed

section \<open>Facts about keys and paths\<close>

lemma split_nonempty: "split s c \<noteq> []"
  by (induction s) (auto split: list.splits)

lemma paths_distinct [simp]:
  "tempFilePath f \<noteq> thumbnailPath f" "tempFilePath f \<noteq> processedImagePath f"
  "thumbnailPath f \<noteq> processedImagePath f"
  "thumbnailPath f \<noteq> tempFilePath f" "processedImagePath f \<noteq> tempFilePath f"
  "processedImagePath f \<noteq> thumbnailPath f"
  by (auto simp: tempFilePath_def thumbnailPath_def processedImagePath_def)

lemma ends_with_iff: "ends_with s suf \<longleftrightarrow> (\<exists>pre. s = pre @ suf)"
proof
  assume "ends_with s suf"
  then have "s = take (length s - length suf) s @ suf"
    by (metis append_take_drop_id ends_with_def)
  then show "\<exists>pre. s = pre @ suf" ..
next
  assume "\<exists>pre. s = pre @ suf"
  then show "ends_with s suf" by (auto simp: ends_with_def)
qed

lemma to_lower_dot: "to_lower c = CHR ''.'' \<longleftrightarrow> c = CHR ''.''"
  by (simp add: to_lower_def)

lemma dot_in_lower: "CHR ''.'' \<in> set (map to_lower s) \<longleftrightarrow> CHR ''.'' \<in> set s"
proof -
  have "CHR ''.'' \<in> set (map to_lower s) \<longleftrightarrow> (\<exists>c\<in>set s. to_lower c = CHR ''.'')"
    by (simp add: image_iff eq_commute)
  also have "\<dots> \<longleftrightarrow> (\<exists>c\<in>set s. c = CHR ''.'')"
    by (simp only: to_lower_dot)
  also have "\<dots> \<longleftrightarrow> CHR ''.'' \<in> set s"
    by simp
  finally show ?thesis .
qed

lemma ext_no_dot: "ext \<in> set image_extensions \<Longrightarrow> CHR ''.'' \<notin> set ext"
  by (auto simp: image_extensions_def)

lemma key_suffix_append:
  "CHR ''.'' \<notin> set x \<Longrightarrow> key_suffix (p @ CHR ''.'' # x) = Some x"
  by (simp add: key_suffix_def takeWhile_append)

lemma key_suffix_decomp:
  assumes "key_suffix s = Some x"
  shows "\<exists>p. s = p @ CHR ''.'' # x"
proof -
  let ?nodot = "\<lambda>c. c \<noteq> CHR ''.''"
  from assms have dot: "CHR ''.'' \<in> set (rev s)"
    and x: "x = rev (takeWhile ?nodot (rev s))"
    by (auto simp: key_suffix_def split: if_splits)
  from dot have "dropWhile ?nodot (rev s) \<noteq> []" by simp
  then obtain d ds where d: "dropWhile ?nodot (rev s) = d # ds"
    by (cases "dropWhile ?nodot (rev s)") auto
  then have "d = CHR ''.''" using hd_dropWhile[of ?nodot "rev s"] by auto
  with d have "rev s = takeWhile ?nodot (rev s) @ CHR ''.'' # ds"
    by (metis takeWhile_dropWhile_id)
  then have "rev (rev s) = rev (takeWhile ?nodot (rev s) @ CHR ''.'' # ds)" by simp
  then have "s = rev ds @ CHR ''.'' # x" using x by simp
  then show ?thesis ..
qed

text \<open>The regular expression of line 82 accepts exactly the keys whose suffix, in lower
  case, is one of the four extensions.\<close>

lemma matches_iff_suffix: "matches_image_type fname \<longleftrightarrow> suffix_accepted fname"
proof
  assume "matches_image_type fname"
  then obtain ext pre where ext: "ext \<in> set image_extensions"
    and eq: "map to_lower fname = pre @ CHR ''.'' # ext"
    by (auto simp: matches_image_type_def list_ex_iff ends_with_iff)
  from eq obtain p r where fname: "fname = p @ r" and "map to_lower r = CHR ''.'' # ext"
    by (auto simp: map_eq_append_conv)
  then obtain c x where r: "r = c # x" and c: "to_lower c = CHR ''.''"
    and x: "map to_lower x = ext"
    by (auto simp: map_eq_Cons_conv)
  from ext x have "CHR ''.'' \<notin> set x" using ext_no_dot dot_in_lower by metis
  with fname r c have "key_suffix fname = Some x"
    by (simp add: to_lower_dot key_suffix_append)
  with ext x show "suffix_accepted fname" by (simp add: suffix_accepted_def)
next
  assume "suffix_accepted fname"
  then obtain x where ks: "key_suffix fname = Some x"
    and x: "map to_lower x \<in> set image_extensions"
    by (auto simp: suffix_accepted_def split: option.splits)
  from key_suffix_decomp[OF ks] obtain p where "fname = p @ CHR ''.'' # x" ..
  then have "map to_lower fname = map to_lower p @ CHR ''.'' # map to_lower x"
    by (simp add: to_lower_def)
  with x show "matches_image_type fname"
    unfolding matches_image_type_def list_ex_iff ends_with_iff by blast
qed

section \<open>Facts about the handler's blocks\<close>

lemmas collaborator_defs =
  db_query_def write_file_def download_def sharp_metadata_def sharp_toFile_def
  exiftool_read_def upload_thumbnail_def upload_processed_def db_add_def
  unlink_if_exists_def exiftool_end_def called_def

text \<open>A \<open>try\<close> block in which some step before the insert fails, or which returns at the
  type test: it writes no record, never calls the insert or the extractor's shutdown,
  touches no local file but its three own, and does not end as \<open>Processed\<close>. One case
  per step, in the order of the source.\<close>

lemma try_block_stops:
  assumes stop: "\<not> uploads_succeed e fname" and run: "try_block e fname w = (r, w')"
  shows "image_logs w' = image_logs w \<and>
     (\<exists>cs. calls w' = calls w @ cs \<and> ExifEnd \<notin> set cs \<and> (\<forall>entry. DbAdd entry \<notin> set cs)) \<and>
     (\<forall>p. p \<notin> set (temp_paths fname) \<longrightarrow> fs w' p = fs w p) \<and>
     (\<forall>entry. r \<noteq> Inr (Processed entry))"
proof (cases "download_res e")
  case (WriteFails l)
  with run show ?thesis by (auto simp: try_block_def collaborator_defs temp_paths_def)
next
  case dl: Written
  show ?thesis
  proof (cases "matches_image_type fname")
    case False
    with dl run show ?thesis by (auto simp: try_block_def collaborator_defs temp_paths_def)
  next
    case ty: True
    show ?thesis
    proof (cases "metadata_res e")
      case None
      with dl ty run show ?thesis by (auto simp: try_block_def collaborator_defs temp_paths_def)
    next
      case md: (Some b)
      show ?thesis
      proof (cases "resize_res e")
        case (WriteFails l)
        with dl ty md run show ?thesis by (auto simp: try_block_def collaborator_defs temp_paths_def)
      next
        case rs: Written
        show ?thesis
        proof (cases "exif_read_res e")
          case None
          with dl ty md rs run show ?thesis by (auto simp: try_block_def collaborator_defs temp_paths_def)
        next
          case ex: (Some t)
          show ?thesis
          proof (cases "makeFirestoreCompatible (stack_frames e) t")
            case (Inl x)
            with dl ty md rs ex run show ?thesis by (auto simp: try_block_def collaborator_defs temp_paths_def)
          next
            case nm: (Inr m)
            show ?thesis
            proof (cases "upload_thumbnail_ok e")
              case False
              with dl ty md rs ex nm run show ?thesis by (auto simp: try_block_def collaborator_defs temp_paths_def)
            next
              case ut: True
              show ?thesis
              proof (cases "toFormat_res e")
                case (WriteFails l)
                with dl ty md rs ex nm ut run show ?thesis by (auto simp: try_block_def collaborator_defs temp_paths_def)
              next
                case tf: Written
                from stop dl ty md rs ex nm ut tf have "\<not> upload_processed_ok e"
                  by (simp add: uploads_succeed_def normalizes_def)
                with dl ty md rs ex nm ut tf run show ?thesis by (auto simp: try_block_def collaborator_defs temp_paths_def)
              qed
            qed
          qed
        qed
      qed
    qed
  qed
qed

text \<open>A \<open>try\<close> block in which every step up to the uploads succeeds reaches the insert.\<close>

lemma try_block_persists:
  assumes ok: "uploads_succeed e fname" and run: "try_block e fname w = (r, w')"
    and b: "metadata_res e = Some b" and t: "exif_read_res e = Some t"
    and m: "makeFirestoreCompatible (stack_frames e) t = Inr m"
  shows "r = (if add_ok e then Inr (Processed (logEntry_of e fname b m)) else Inl PersistFailed) \<and>
     image_logs w' = (if add_ok e then image_logs w @ [logEntry_of e fname b m] else image_logs w) \<and>
     calls w' = calls w @ tl (calls_to_insert fname (logEntry_of e fname b m)) \<and>
     fs w' = (fs w)(tempFilePath fname \<mapsto> SourceObject (filePath fname),
                    thumbnailPath fname \<mapsto> thumbnail_of fname,
                    processedImagePath fname \<mapsto> processed_of fname) \<and>
     thumbnail_bucket w' = (thumbnail_bucket w)(thumbnailDestination fname \<mapsto> thumbnail_of fname) \<and>
     processed_bucket w' = (processed_bucket w)(processedDestination fname \<mapsto> processed_of fname)"
proof -
  from ok have flags: "download_res e = Written" "matches_image_type fname"
    "resize_res e = Written" "upload_thumbnail_ok e" "toFormat_res e = Written"
    "upload_processed_ok e"
    by (simp_all add: uploads_succeed_def)
  from run b t m flags show ?thesis
    by (cases "add_ok e")
       (auto simp: try_block_def collaborator_defs calls_to_insert_def thumbnail_of_def
          processed_of_def logEntry_of_def Let_def)
qed

lemma uploads_succeed_obtain:
  assumes "uploads_succeed e fname"
  obtains b t m where "metadata_res e = Some b" "exif_read_res e = Some t"
    "makeFirestoreCompatible (stack_frames e) t = Inr m"
proof -
  from assms obtain b t where b: "metadata_res e = Some b" and t: "exif_read_res e = Some t"
    and "\<not> isl (makeFirestoreCompatible (stack_frames e) t)"
    by (auto simp: uploads_succeed_def normalizes_def split: option.splits)
  then obtain m where "makeFirestoreCompatible (stack_frames e) t = Inr m"
    by (cases "makeFirestoreCompatible (stack_frames e) t") auto
  with b t that show thesis by blast
qed

lemma try_block_frame:
  assumes run: "try_block e fname w = (r, w')"
  shows "(\<exists>cs. calls w' = calls w @ cs \<and> ExifEnd \<notin> set cs) \<and>
         (\<forall>p. p \<notin> set (temp_paths fname) \<longrightarrow> fs w' p = fs w p)"
proof (cases "uploads_succeed e fname")
  case True
  then obtain b t m where "metadata_res e = Some b" "exif_read_res e = Some t"
    "makeFirestoreCompatible (stack_frames e) t = Inr m" by (rule uploads_succeed_obtain)
  from try_block_persists[OF True run this] show ?thesis
    by (auto simp: calls_to_insert_def temp_paths_def)
next
  case False
  from try_block_stops[OF False run] show ?thesis by blast
qed

lemma unlink_ok_removes:
  "unlink_ok e p \<Longrightarrow> unlink_if_exists e p w = (Inr (), w\<lparr>fs := (fs w)(p := None)\<rparr>)"
  by (simp add: unlink_if_exists_def fun_upd_idem)

lemma finally_block_cleans:
  assumes "list_all (unlink_ok e) (temp_paths fname)"
  shows "finally_block e fname w =
     (if end_ok e then None else Some ExtractorEndFailed,
      w\<lparr>fs := (\<lambda>p. if p \<in> set (temp_paths fname) then None else fs w p),
        calls := calls w @ [ExifEnd]\<rparr>)"
proof -
  have "(fs w)(tempFilePath fname := None, thumbnailPath fname := None,
               processedImagePath fname := None)
      = (\<lambda>p. if p \<in> set (temp_paths fname) then None else fs w p)"
    by (auto simp: temp_paths_def)
  with assms show ?thesis
    by (simp add: finally_block_def unlink_ok_removes exiftool_end_def called_def temp_paths_def)
qed

lemma unlink_frame:
  "unlink_if_exists e p w = (x, w') \<Longrightarrow>
     image_logs w' = image_logs w \<and> thumbnail_bucket w' = thumbnail_bucket w \<and>
     processed_bucket w' = processed_bucket w \<and> calls w' = calls w"
  by (auto simp: unlink_if_exists_def split: if_splits)

lemma finally_block_frame:
  assumes "finally_block e fname w = (f, w')"
  shows "image_logs w' = image_logs w \<and> thumbnail_bucket w' = thumbnail_bucket w \<and>
     processed_bucket w' = processed_bucket w \<and>
     (calls w' = calls w \<or> calls w' = calls w @ [ExifEnd]) \<and>
     (f = None \<longrightarrow> calls w' = calls w @ [ExifEnd])"
proof -
  obtain x1 w1 where s1: "unlink_if_exists e (tempFilePath fname) w = (x1, w1)"
    by (cases "unlink_if_exists e (tempFilePath fname) w")
  obtain x2 w2 where s2: "unlink_if_exists e (thumbnailPath fname) w1 = (x2, w2)"
    by (cases "unlink_if_exists e (thumbnailPath fname) w1")
  obtain x3 w3 where s3: "unlink_if_exists e (processedImagePath fname) w2 = (x3, w3)"
    by (cases "unlink_if_exists e (processedImagePath fname) w2")
  note f1 = unlink_frame[OF s1] and f2 = unlink_frame[OF s2] and f3 = unlink_frame[OF s3]
  from assms s1 s2 s3 f1 f2 f3 show ?thesis
    by (auto simp: finally_block_def exiftool_end_def called_def split: sum.splits if_splits)
qed

section \<open>Facts about the handler\<close>

lemma processImage_enters:
  assumes "enters_try e ev w"
  obtains fname where "name ev = Some fname" "fname \<noteq> []"
    "processImage e ev w =
       (case try_block e fname (called (DbQuery fname) w) of (r, w2) \<Rightarrow>
        (case finally_block e fname w2 of
           (Some err, w3) \<Rightarrow> (Inl err, w3)
         | (None, w3) \<Rightarrow> (r, w3)))"
  using assms
  by (auto simp: enters_try_def processImage_def or_name_def falsy_name_def db_query_def
           split: option.splits)

lemma processImage_enters_named:
  assumes "enters_try e ev w" and "name ev = Some fname"
  shows "processImage e ev w =
       (case try_block e fname (called (DbQuery fname) w) of (r, w2) \<Rightarrow>
        (case finally_block e fname w2 of
           (Some err, w3) \<Rightarrow> (Inl err, w3)
         | (None, w3) \<Rightarrow> (r, w3)))"
proof -
  from assms(1) obtain f where f: "name ev = Some f" and u: "processImage e ev w =
       (case try_block e f (called (DbQuery f) w) of (r, w2) \<Rightarrow>
        (case finally_block e f w2 of
           (Some err, w3) \<Rightarrow> (Inl err, w3)
         | (None, w3) \<Rightarrow> (r, w3)))"
    by (rule processImage_enters)
  from f assms(2) have "f = fname" by simp
  with u show ?thesis by simp
qed

text \<open>An invocation that stops before the \<open>try\<close> block: a missing name, a failed query or
  a recorded name.\<close>

lemma processImage_early:
  assumes "\<not> enters_try e ev w" and "processImage e ev w = (r, w')"
  shows "fs w' = fs w \<and> image_logs w' = image_logs w \<and> thumbnail_bucket w' = thumbnail_bucket w \<and>
     processed_bucket w' = processed_bucket w \<and>
     (new_calls w w' = [] \<or> (\<exists>fname. new_calls w w' = [DbQuery fname])) \<and>
     (\<forall>entry. r \<noteq> Inr (Processed entry))"
proof (cases "name ev")
  case None
  with assms(2) show ?thesis
    by (auto simp: processImage_def or_name_def falsy_name_def new_calls_def)
next
  case (Some fname)
  show ?thesis
  proof (cases "fname = []")
    case True
    with Some assms(2) show ?thesis
      by (auto simp: processImage_def or_name_def falsy_name_def new_calls_def)
  next
    case ne: False
    show ?thesis
    proof (cases "query_fails e")
      case True
      with Some ne assms(2) show ?thesis
        by (auto simp: processImage_def or_name_def falsy_name_def db_query_def called_def
              new_calls_def)
    next
      case False
      with Some ne assms(1) have "filter (\<lambda>r. fileName r = fname) (image_logs w) \<noteq> []"
        by (simp add: enters_try_def)
      then have "take 1 (filter (\<lambda>r. fileName r = fname) (image_logs w)) \<noteq> []"
        by (cases "filter (\<lambda>r. fileName r = fname) (image_logs w)") simp_all
      with Some ne False assms(2) show ?thesis
        by (auto simp: processImage_def or_name_def falsy_name_def db_query_def called_def
              new_calls_def)
    qed
  qed
qed

text \<open>The run in which nothing fails: key \<open>fname\<close>, not recorded, ends as \<open>Processed\<close>
  with one new record.\<close>

lemma processImage_succeeds:
  assumes nm: "name ev = Some fname" "fname \<noteq> []"
    and q: "\<not> query_fails e" "filter (\<lambda>r. fileName r = fname) (image_logs w) = []"
    and ok: "uploads_succeed e fname" "add_ok e"
    and fin: "list_all (unlink_ok e) (temp_paths fname)" "end_ok e"
    and res: "metadata_res e = Some b" "exif_read_res e = Some t"
      "makeFirestoreCompatible (stack_frames e) t = Inr m"
  obtains w' where "processImage e ev w = (Inr (Processed (logEntry_of e fname b m)), w')"
    "image_logs w' = image_logs w @ [logEntry_of e fname b m]"
    "new_calls w w' = calls_to_insert fname (logEntry_of e fname b m) @ [ExifEnd]"
proof -
  from nm q have "enters_try e ev w" by (simp add: enters_try_def)
  from processImage_enters_named[OF this nm(1)] have unfold: "processImage e ev w =
       (case try_block e fname (called (DbQuery fname) w) of (r, w2) \<Rightarrow>
        (case finally_block e fname w2 of
           (Some err, w3) \<Rightarrow> (Inl err, w3)
         | (None, w3) \<Rightarrow> (r, w3)))" .
  obtain r2 w2 where tb: "try_block e fname (called (DbQuery fname) w) = (r2, w2)"
    by (cases "try_block e fname (called (DbQuery fname) w)")
  note p = try_block_persists[OF ok(1) tb res]
  note c = finally_block_cleans[OF fin(1), of w2]
  let ?w' = "w2\<lparr>fs := (\<lambda>p. if p \<in> set (temp_paths fname) then None else fs w2 p),
        calls := calls w2 @ [ExifEnd]\<rparr>"
  from unfold tb p c ok(2) fin(2)
  have "processImage e ev w = (Inr (Processed (logEntry_of e fname b m)), ?w')" by simp
  moreover from p ok(2) have "image_logs ?w' = image_logs w @ [logEntry_of e fname b m]"
    by (simp add: called_def)
  moreover from p have "new_calls w ?w' = calls_to_insert fname (logEntry_of e fname b m) @ [ExifEnd]"
    by (simp add: new_calls_def called_def calls_to_insert_def)
  ultimately show thesis by (rule that)
qed

text \<open>A run that ends as \<open>Processed\<close> has put both artifacts of its key into the buckets.\<close>

lemma processed_run:
  assumes run: "processImage e ev w = (Inr (Processed entry), w')" and nm: "name ev = Some fname"
  shows "thumbnail_bucket w' = (thumbnail_bucket w)(thumbnailDestination fname \<mapsto> thumbnail_of fname) \<and>
         processed_bucket w' = (processed_bucket w)(processedDestination fname \<mapsto> processed_of fname)"
proof (cases "enters_try e ev w")
  case False
  from processImage_early[OF False run] show ?thesis by auto
next
  case True
  from processImage_enters_named[OF True nm] have unfold: "processImage e ev w =
       (case try_block e fname (called (DbQuery fname) w) of (r, w2) \<Rightarrow>
        (case finally_block e fname w2 of
           (Some err, w3) \<Rightarrow> (Inl err, w3)
         | (None, w3) \<Rightarrow> (r, w3)))" .
  obtain r2 w2 where tb: "try_block e fname (called (DbQuery fname) w) = (r2, w2)"
    by (cases "try_block e fname (called (DbQuery fname) w)")
  obtain f w3 where fb: "finally_block e fname w2 = (f, w3)"
    by (cases "finally_block e fname w2")
  from run unfold tb fb have w3: "w' = w3" and r2: "r2 = Inr (Processed entry)"
    by (auto split: option.splits)
  note ff = finally_block_frame[OF fb]
  have ok: "uploads_succeed e fname"
  proof (rule ccontr)
    assume "\<not> uploads_succeed e fname"
    from try_block_stops[OF this tb] r2 show False by blast
  qed
  then obtain b t m where "metadata_res e = Some b" "exif_read_res e = Some t"
    "makeFirestoreCompatible (stack_frames e) t = Inr m" by (rule uploads_succeed_obtain)
  from try_block_persists[OF ok tb this] ff w3 show ?thesis
    by (auto simp: called_def)
qed

section \<open>Facts about the sample inputs\<close>

lemma sample_tags_any_stack:
  "0 < frames \<Longrightarrow> makeFirestoreCompatible frames sample_tags = Inr sample_tags"
  by (simp add: sample_tags_def plain_def mfc_frames result_defs)

lemma sample_tags_normalize:
  "makeFirestoreCompatible (stack_frames env_ok) sample_tags = Inr sample_tags"
  by (rule sample_tags_any_stack) (simp add: env_ok_def)

lemma env_ok_uploads: "matches_image_type fname \<Longrightarrow> uploads_succeed env_ok fname"
proof -
  assume ty: "matches_image_type fname"
  have "exif_read_res env_ok = Some sample_tags" by (simp add: env_ok_def)
  then have "normalizes env_ok" by (simp add: normalizes_def sample_tags_normalize)
  with ty show ?thesis by (simp add: uploads_succeed_def) (simp add: env_ok_def)
qed

lemma env_ok_unlinks: "list_all (unlink_ok env_ok) ps"
  by (simp add: env_ok_def list_all_iff)

lemma sample_matches:
  "matches_image_type ''photos/sample.jpg''" "matches_image_type ''a/x.jpg''"
  "matches_image_type ''b/x.jpg''"
  by (simp_all add: matches_image_type_def ends_with_def image_extensions_def to_lower_def)

lemma sample_run:
  assumes "matches_image_type fname" "fname \<noteq> []"
    and "filter (\<lambda>r. fileName r = fname) (image_logs w) = []"
  obtains w' where
    "processImage env_ok (event_of fname) w = (Inr (Processed (sample_entry fname)), w')"
    "image_logs w' = image_logs w @ [sample_entry fname]"
    "new_calls w w' = calls_to_insert fname (sample_entry fname) @ [ExifEnd]"
proof -
  have n: "name (event_of fname) = Some fname" by (simp add: event_of_def)
  have flags: "\<not> query_fails env_ok" "add_ok env_ok" "end_ok env_ok"
    "metadata_res env_ok = Some sample_basic" "exif_read_res env_ok = Some sample_tags"
    by (simp_all add: env_ok_def)
  obtain w' where
    "processImage env_ok (event_of fname) w =
       (Inr (Processed (logEntry_of env_ok fname sample_basic sample_tags)), w')"
    "image_logs w' = image_logs w @ [logEntry_of env_ok fname sample_basic sample_tags]"
    "new_calls w w' =
       calls_to_insert fname (logEntry_of env_ok fname sample_basic sample_tags) @ [ExifEnd]"
    using processImage_succeeds[OF n assms(2) flags(1) assms(3) env_ok_uploads[OF assms(1)]
        flags(2) env_ok_unlinks flags(3) flags(4) flags(5) sample_tags_normalize]
    by blast
  then show thesis using that by (simp add: sample_entry_def)
qed

section \<open>The claims about the normalizer\<close>




text \<open>
  C2. The claim: every composite member is walked key by key and every key of the input,
  also of a nested mapping, is in the output. The code at a nested object literal: the
  \<open>toString\<close> test of line 24 holds for it, so the member becomes the text
  \<open>[object Object]\<close> and its key \<open>lat\<close> is gone. (On any stack with room for the call.)
\<close>

theorem nested_keys_lost:
  "makeFirestoreCompatible (Suc frames) (plain [(''GPS'', plain [(''lat'', JNum 1)])])
     = Inr (plain [(''GPS'', JStr ''[object Object]'')])"
  by (simp add: plain_def mfc_frames result_defs)

text \<open>
  C3. The claim: a Buffer member becomes its base64 text, which decodes to the bytes. The
  code: a Buffer with its \<open>toString\<close> method takes the branch of line 26 and becomes its
  UTF-8 text (\<open>hi\<close>, where base64 gives \<open>aGk=\<close>); a Buffer without the method reaches
  line 29, whose call raises. (On any stack with room for the call, and whatever
  \<open>for ... in\<close> would visit on the Buffer.)
\<close>

theorem buffer_not_base64:
  "makeFirestoreCompatible (Suc frames) (plain [(''Hash'', buffer_from_ascii ''hi'' ms)])
     = Inr (plain [(''Hash'', JStr ''hi'')]) \<and>
   buffer_from_ascii ''hi'' ms = JBuffer (Returns (JStr ''hi'')) [0x68, 0x69] ms \<and>
   base64_encode [0x68, 0x69] = ''aGk='' \<and>
   makeFirestoreCompatible (Suc frames) (plain [(''Hash'', JBuffer NotCallable [0x68, 0x69] ms)])
     = Inl TypeError"
  by (simp add: plain_def mfc_frames result_defs buffer_from_ascii_def base64_char_def
        base64_alphabet_def)

text \<open>
  C4. The claim: normalizing a value of normalized shape returns it unchanged. The code
  at a mapping with a nested mapping, both object literals: the nested mapping is
  replaced by the text \<open>[object Object]\<close>. The normalizer's own output for \<open>nest 1\<close> is
  such a value, so applying the normalizer twice differs from applying it once. (On
  any stack with room for the calls.)
\<close>

theorem normalized_input_changed:
  "normalized_shape (plain [(''a'', plain [(''b'', JNum 1)])]) \<and>
   makeFirestoreCompatible (Suc frames) (plain [(''a'', plain [(''b'', JNum 1)])])
     = Inr (plain [(''a'', JStr ''[object Object]'')]) \<and>
   makeFirestoreCompatible (Suc (Suc frames)) (nest 1) = Inr (plain [(''k'', plain [])]) \<and>
   makeFirestoreCompatible (Suc frames) (plain [(''k'', plain [])])
     = Inr (plain [(''k'', JStr ''[object Object]'')])"
  by (simp add: plain_def bare_def mfc_frames result_defs)

section \<open>The claims about the handler\<close>

text \<open>
  C5 (as amended). Provided the removal of the invocation's local files does not itself
  fail: an invocation that reaches the \<open>try\<close> block (it has a name, the idempotency
  query answers and finds nothing) ends, whatever its outcome, with none of its three
  local files left, every other file as before, and the extractor shut down exactly
  once; an invocation that stops earlier (missing name, failed query, recorded name)
  creates no file and does not shut the extractor down.
\<close>

theorem cleanup_after_try:
  assumes run: "processImage e ev w = (r, w')"
    and unl: "list_all (unlink_ok e) (event_paths ev)"
  shows "if enters_try e ev w
         then fs w' = (\<lambda>p. if p \<in> set (event_paths ev) then None else fs w p) \<and>
              releases (new_calls w w') = 1
         else fs w' = fs w \<and> releases (new_calls w w') = 0"
proof (cases "enters_try e ev w")
  case False
  from processImage_early[OF False run] False show ?thesis
    by (auto simp: releases_def)
next
  case True
  then obtain fname where nm: "name ev = Some fname" and
    unfold: "processImage e ev w =
       (case try_block e fname (called (DbQuery fname) w) of (r, w2) \<Rightarrow>
        (case finally_block e fname w2 of
           (Some err, w3) \<Rightarrow> (Inl err, w3)
         | (None, w3) \<Rightarrow> (r, w3)))"
    by (rule processImage_enters)
  obtain r2 w2 where tb: "try_block e fname (called (DbQuery fname) w) = (r2, w2)"
    by (cases "try_block e fname (called (DbQuery fname) w)")
  from nm unl have unl': "list_all (unlink_ok e) (temp_paths fname)"
    by (simp add: event_paths_def)
  note fin = finally_block_cleans[OF unl', of w2]
  from try_block_frame[OF tb] obtain cs where cs: "calls w2 = calls w @ DbQuery fname # cs"
    and noend: "ExifEnd \<notin> set cs"
    and fr: "\<forall>p. p \<notin> set (temp_paths fname) \<longrightarrow> fs w2 p = fs w p"
    by (auto simp: called_def)
  from run unfold tb fin
  have w': "w' = w2\<lparr>fs := (\<lambda>p. if p \<in> set (temp_paths fname) then None else fs w2 p),
        calls := calls w2 @ [ExifEnd]\<rparr>"
    by (auto split: if_splits)
  have "fs w' = (\<lambda>p. if p \<in> set (event_paths ev) then None else fs w p)"
    using w' fr nm by (auto simp: event_paths_def)
  moreover have "releases (new_calls w w') = 1"
    using w' cs noend by (simp add: new_calls_def releases_def)
  ultimately show ?thesis using True by simp
qed

theorem cleanup_after_try_witness:
  "list_all (unlink_ok env_ok) (event_paths (event_of ''photos/sample.jpg'')) \<and>
   enters_try env_ok (event_of ''photos/sample.jpg'') world0 \<and>
   fs (snd (processImage env_ok (event_of ''photos/sample.jpg'') world0)) =
     (\<lambda>p. if p \<in> set (event_paths (event_of ''photos/sample.jpg'')) then None
          else fs world0 p) \<and>
   releases (new_calls world0 (snd (processImage env_ok (event_of ''photos/sample.jpg'') world0)))
     = 1"
proof -
  have e: "enters_try env_ok (event_of ''photos/sample.jpg'') world0"
    by (simp add: enters_try_def event_of_def env_ok_def world0_def)
  have u: "list_all (unlink_ok env_ok) (event_paths (event_of ''photos/sample.jpg''))"
    by (rule env_ok_unlinks)
  have r: "processImage env_ok (event_of ''photos/sample.jpg'') world0 =
      (fst (processImage env_ok (event_of ''photos/sample.jpg'') world0),
       snd (processImage env_ok (event_of ''photos/sample.jpg'') world0))" by simp
  from cleanup_after_try[OF r u] e u show ?thesis by simp
qed

text \<open>C5 as stated fails: an event without a name raises before the \<open>try\<close> block, and
  the extractor is shut down zero times, not once.\<close>

theorem release_exactly_once_counterexample:
  "fst (processImage env_ok \<lparr>name = None\<rparr> world0) = Inl MissingFileName \<and>
   releases (new_calls world0 (snd (processImage env_ok \<lparr>name = None\<rparr> world0))) = 0"
  by (simp add: processImage_def or_name_def falsy_name_def new_calls_def releases_def)

text \<open>
  C6. For an event whose key has a record in \<open>image_logs\<close>, and whose idempotency query
  is answered, the handler returns \<open>Skipped\<close> without an error; the only thing it has done
  is that query: no download, upload, derivation, extraction or insert, and no state
  changed.
\<close>

theorem skipped_without_side_effects:
  assumes "name ev = Some fname" "fname \<noteq> []" "\<not> query_fails e"
    and "entry \<in> set (image_logs w)" "fileName entry = fname"
  shows "processImage e ev w = (Inr Skipped, w\<lparr>calls := calls w @ [DbQuery fname]\<rparr>)"
proof -
  from assms(4,5) have "filter (\<lambda>r. fileName r = fname) (image_logs w) \<noteq> []"
    by (auto simp: filter_empty_conv)
  then have "take 1 (filter (\<lambda>r. fileName r = fname) (image_logs w)) \<noteq> []"
    by (cases "filter (\<lambda>r. fileName r = fname) (image_logs w)") simp_all
  with assms(1-3) show ?thesis
    by (simp add: processImage_def or_name_def falsy_name_def db_query_def called_def)
qed

theorem skipped_without_side_effects_witness:
  "processImage env_ok (event_of ''photos/sample.jpg'')
     (world0\<lparr>image_logs := [sample_entry ''photos/sample.jpg'']\<rparr>) =
   (Inr Skipped, world0\<lparr>image_logs := [sample_entry ''photos/sample.jpg''],
                        calls := [DbQuery ''photos/sample.jpg'']\<rparr>)"
  using skipped_without_side_effects[of "event_of ''photos/sample.jpg''" "''photos/sample.jpg''"
      env_ok "sample_entry ''photos/sample.jpg''"
      "world0\<lparr>image_logs := [sample_entry ''photos/sample.jpg'']\<rparr>"]
  by (simp add: event_of_def env_ok_def world0_def sample_entry_def logEntry_of_def)

text \<open>
  C7. For an event whose key is not recorded and whose suffix is none of jpg, jpeg, png,
  gif in any letter case, once the download has completed the handler returns \<open>Rejected\<close>
  without an error. Its collaborator calls are the query, the download and the
  extractor's shutdown; no derivation, extraction, upload or insert takes place, the
  buckets and \<open>image_logs\<close> are as before, and the downloaded file is removed. (The
  query answers, and the \<open>finally\<close> block's own steps do not fail.)
\<close>

theorem rejected_after_download:
  assumes nm: "name ev = Some fname" "fname \<noteq> []"
    and q: "\<not> query_fails e" "filter (\<lambda>r. fileName r = fname) (image_logs w) = []"
    and sfx: "\<not> suffix_accepted fname"
    and dl: "download_res e = Written"
    and fin: "list_all (unlink_ok e) (temp_paths fname)" "end_ok e"
    and run: "processImage e ev w = (r, w')"
  shows "r = Inr Rejected \<and>
     new_calls w w' = [DbQuery fname, Download (filePath fname) (tempFilePath fname), ExifEnd] \<and>
     thumbnail_bucket w' = thumbnail_bucket w \<and> processed_bucket w' = processed_bucket w \<and>
     image_logs w' = image_logs w \<and>
     fs w' = (\<lambda>p. if p \<in> set (temp_paths fname) then None else fs w p)"
proof -
  from sfx have ty: "\<not> matches_image_type fname" by (simp add: matches_iff_suffix)
  have tb: "try_block e fname (called (DbQuery fname) w) =
      (Inr Rejected,
       w\<lparr>calls := calls w @ [DbQuery fname, Download (filePath fname) (tempFilePath fname)],
         fs := (fs w)(tempFilePath fname \<mapsto> SourceObject (filePath fname))\<rparr>)"
    using ty dl by (simp add: try_block_def download_def write_file_def called_def)
  from nm q have "enters_try e ev w" by (simp add: enters_try_def)
  from processImage_enters_named[OF this nm(1)] run tb fin(2) finally_block_cleans[OF fin(1)]
  show ?thesis
    by (auto simp: new_calls_def temp_paths_def)
qed

theorem rejected_after_download_witness:
  "\<not> suffix_accepted ''notes/readme.txt'' \<and>
   fst (processImage env_ok (event_of ''notes/readme.txt'') world0) = Inr Rejected \<and>
   new_calls world0 (snd (processImage env_ok (event_of ''notes/readme.txt'') world0)) =
     [DbQuery ''notes/readme.txt'', Download ''notes/readme.txt'' ''/tmp/readme.txt'', ExifEnd] \<and>
   image_logs (snd (processImage env_ok (event_of ''notes/readme.txt'') world0)) = []"
proof -
  have s: "\<not> suffix_accepted ''notes/readme.txt''"
    by (simp add: suffix_accepted_def key_suffix_def image_extensions_def to_lower_def)
  have r: "processImage env_ok (event_of ''notes/readme.txt'') world0 =
      (fst (processImage env_ok (event_of ''notes/readme.txt'') world0),
       snd (processImage env_ok (event_of ''notes/readme.txt'') world0))" by simp
  have p: "filePath ''notes/readme.txt'' = ''notes/readme.txt''"
    "tempFilePath ''notes/readme.txt'' = ''/tmp/readme.txt''"
    by (simp_all add: filePath_def tempFilePath_def basename_def pop_def)
  from rejected_after_download[where ev = "event_of ''notes/readme.txt''"
      and fname = "''notes/readme.txt''" and e = env_ok and w = world0,
      OF _ _ _ _ s _ env_ok_unlinks _ r] s p
  show ?thesis
    by (simp add: event_of_def env_ok_def world0_def)
qed

text \<open>
  C8. In every invocation the insert into \<open>image_logs\<close> comes only after both uploads
  have succeeded: if a record was written, or the insert was so much as called, then
  every step up to and including the two uploads succeeded, the calls made are the
  query, the download, the derivations, the extraction and the two uploads, in that
  order, followed by the insert, and both artifacts are in their buckets. And if some
  step up to the uploads fails, \<open>image_logs\<close> is unchanged and the insert is never called.
\<close>

theorem insert_only_after_uploads:
  assumes run: "processImage e ev w = (r, w')"
  shows "(image_logs w' \<noteq> image_logs w \<or> (\<exists>entry. DbAdd entry \<in> set (new_calls w w')) \<longrightarrow>
            (\<exists>fname entry tail. name ev = Some fname \<and> uploads_succeed e fname \<and>
               new_calls w w' = calls_to_insert fname entry @ tail \<and>
               thumbnail_bucket w' (thumbnailDestination fname) = Some (thumbnail_of fname) \<and>
               processed_bucket w' (processedDestination fname) = Some (processed_of fname)))
       \<and> ((\<forall>fname. name ev = Some fname \<longrightarrow> \<not> uploads_succeed e fname) \<longrightarrow>
            image_logs w' = image_logs w \<and> (\<forall>entry. DbAdd entry \<notin> set (new_calls w w')))"
proof (cases "enters_try e ev w")
  case False
  from processImage_early[OF False run] show ?thesis by auto
next
  case True
  then obtain fname where nm: "name ev = Some fname" and
    unfold: "processImage e ev w =
       (case try_block e fname (called (DbQuery fname) w) of (r, w2) \<Rightarrow>
        (case finally_block e fname w2 of
           (Some err, w3) \<Rightarrow> (Inl err, w3)
         | (None, w3) \<Rightarrow> (r, w3)))"
    by (rule processImage_enters)
  obtain r2 w2 where tb: "try_block e fname (called (DbQuery fname) w) = (r2, w2)"
    by (cases "try_block e fname (called (DbQuery fname) w)")
  obtain f w3 where fb: "finally_block e fname w2 = (f, w3)"
    by (cases "finally_block e fname w2")
  from run unfold tb fb have w3: "w' = w3" by (auto split: option.splits)
  note ff = finally_block_frame[OF fb]
  show ?thesis
  proof (cases "uploads_succeed e fname")
    case ok: True
    then obtain b t m where "metadata_res e = Some b" "exif_read_res e = Some t"
      "makeFirestoreCompatible (stack_frames e) t = Inr m" by (rule uploads_succeed_obtain)
    from try_block_persists[OF ok tb this]
    have c2: "calls w2 = calls w @ calls_to_insert fname (logEntry_of e fname b m)"
      and tbk: "thumbnail_bucket w2 (thumbnailDestination fname) = Some (thumbnail_of fname)"
      and pbk: "processed_bucket w2 (processedDestination fname) = Some (processed_of fname)"
      by (auto simp: called_def calls_to_insert_def)
    from ff c2
    have "\<exists>tail. new_calls w w3 = calls_to_insert fname (logEntry_of e fname b m) @ tail"
      by (auto simp: new_calls_def)
    with nm ok tbk pbk ff w3 show ?thesis by auto
  next
    case stop: False
    from try_block_stops[OF stop tb] obtain cs where
      "image_logs w2 = image_logs w" "calls w2 = calls w @ DbQuery fname # cs"
      "\<forall>entry. DbAdd entry \<notin> set cs"
      by (auto simp: called_def)
    with ff w3
    have "image_logs w' = image_logs w \<and> (\<forall>entry. DbAdd entry \<notin> set (new_calls w w'))"
      by (auto simp: new_calls_def)
    with nm stop show ?thesis by auto
  qed
qed

theorem insert_only_after_uploads_witness:
  "image_logs (snd (processImage env_ok (event_of ''photos/sample.jpg'') world0))
     \<noteq> image_logs world0 \<and>
   (\<exists>fname entry tail.
       name (event_of ''photos/sample.jpg'') = Some fname \<and> uploads_succeed env_ok fname \<and>
       new_calls world0 (snd (processImage env_ok (event_of ''photos/sample.jpg'') world0))
         = calls_to_insert fname entry @ tail \<and>
       thumbnail_bucket (snd (processImage env_ok (event_of ''photos/sample.jpg'') world0))
         (thumbnailDestination fname) = Some (thumbnail_of fname) \<and>
       processed_bucket (snd (processImage env_ok (event_of ''photos/sample.jpg'') world0))
         (processedDestination fname) = Some (processed_of fname))"
proof -
  obtain w' where run: "processImage env_ok (event_of ''photos/sample.jpg'') world0 =
      (Inr (Processed (sample_entry ''photos/sample.jpg'')), w')"
    and logs: "image_logs w' = image_logs world0 @ [sample_entry ''photos/sample.jpg'']"
    by (rule sample_run[of "''photos/sample.jpg''" world0])
       (simp_all add: sample_matches world0_def)
  from logs have "image_logs w' \<noteq> image_logs world0" by simp
  with insert_only_after_uploads[OF run] run show ?thesis by simp
qed

text \<open>
  C9. For an event whose name is absent or empty the handler raises its missing-name
  error and has called no collaborator: the whole state, call log included, is as it
  was.
\<close>

theorem missing_name_raises_untouched:
  assumes "name ev = None \<or> name ev = Some []"
  shows "processImage e ev w = (Inl MissingFileName, w)"
  using assms by (auto simp: processImage_def or_name_def falsy_name_def)

theorem missing_name_raises_untouched_witness:
  "processImage env_ok \<lparr>name = Some []\<rparr> world0 = (Inl MissingFileName, world0) \<and>
   processImage env_ok \<lparr>name = None\<rparr> world0 = (Inl MissingFileName, world0)"
  using missing_name_raises_untouched[of "\<lparr>name = Some []\<rparr>" env_ok world0]
    missing_name_raises_untouched[of "\<lparr>name = None\<rparr>" env_ok world0]
  by simp

text \<open>
  C10. Two keys with the same last path segment get the same three local paths and the
  same two upload destinations; when both are processed with success, one after the
  other, the destinations that held the first key's thumbnail and reformatted copy hold
  the second key's.
\<close>

theorem same_basename_overwrites:
  assumes same: "basename k1 = basename k2"
    and run1: "processImage e1 (event_of k1) w = (Inr (Processed r1), w1)"
    and run2: "processImage e2 (event_of k2) w1 = (Inr (Processed r2), w2)"
  shows "temp_paths k1 = temp_paths k2 \<and>
     thumbnailDestination k1 = thumbnailDestination k2 \<and>
     processedDestination k1 = processedDestination k2 \<and>
     thumbnail_bucket w1 (thumbnailDestination k1) = Some (thumbnail_of k1) \<and>
     processed_bucket w1 (processedDestination k1) = Some (processed_of k1) \<and>
     thumbnail_bucket w2 (thumbnailDestination k1) = Some (thumbnail_of k2) \<and>
     processed_bucket w2 (processedDestination k1) = Some (processed_of k2)"
proof -
  from same have paths: "temp_paths k1 = temp_paths k2"
    "thumbnailDestination k1 = thumbnailDestination k2"
    "processedDestination k1 = processedDestination k2"
    by (simp_all add: temp_paths_def tempFilePath_def thumbnailPath_def processedImagePath_def
          thumbnailDestination_def processedDestination_def)
  have n1: "name (event_of k1) = Some k1" and n2: "name (event_of k2) = Some k2"
    by (simp_all add: event_of_def)
  from processed_run[OF run1 n1] processed_run[OF run2 n2] paths show ?thesis by simp
qed

theorem same_basename_overwrites_witness:
  "''a/x.jpg'' \<noteq> ''b/x.jpg'' \<and> basename ''a/x.jpg'' = basename ''b/x.jpg'' \<and>
   thumbnailDestination ''a/x.jpg'' = ''thumbnail-x.jpg'' \<and>
   thumbnailDestination ''b/x.jpg'' = ''thumbnail-x.jpg'' \<and>
   thumbnail_bucket (snd (processImage env_ok (event_of ''a/x.jpg'') world0)) ''thumbnail-x.jpg''
     = Some (thumbnail_of ''a/x.jpg'') \<and>
   thumbnail_bucket (snd (processImage env_ok (event_of ''b/x.jpg'')
       (snd (processImage env_ok (event_of ''a/x.jpg'') world0)))) ''thumbnail-x.jpg''
     = Some (thumbnail_of ''b/x.jpg'') \<and>
   processed_bucket (snd (processImage env_ok (event_of ''b/x.jpg'')
       (snd (processImage env_ok (event_of ''a/x.jpg'') world0)))) ''processed-x.jpg''
     = Some (processed_of ''b/x.jpg'') \<and>
   thumbnail_of ''a/x.jpg'' \<noteq> thumbnail_of ''b/x.jpg''"
proof -
  have same: "basename ''a/x.jpg'' = basename ''b/x.jpg''"
    by (simp add: basename_def pop_def)
  have dest: "thumbnailDestination ''a/x.jpg'' = ''thumbnail-x.jpg''"
    "thumbnailDestination ''b/x.jpg'' = ''thumbnail-x.jpg''"
    "processedDestination ''a/x.jpg'' = ''processed-x.jpg''"
    "processedDestination ''b/x.jpg'' = ''processed-x.jpg''"
    by (simp_all add: thumbnailDestination_def processedDestination_def basename_def pop_def)
  obtain w1 where run1: "processImage env_ok (event_of ''a/x.jpg'') world0 =
      (Inr (Processed (sample_entry ''a/x.jpg'')), w1)"
    and logs: "image_logs w1 = image_logs world0 @ [sample_entry ''a/x.jpg'']"
    by (rule sample_run[of "''a/x.jpg''" world0]) (simp_all add: sample_matches world0_def)
  from logs have fresh: "filter (\<lambda>r. fileName r = ''b/x.jpg'') (image_logs w1) = []"
    by (simp add: world0_def sample_entry_def logEntry_of_def)
  obtain w2 where run2: "processImage env_ok (event_of ''b/x.jpg'') w1 =
      (Inr (Processed (sample_entry ''b/x.jpg'')), w2)"
    by (rule sample_run[of "''b/x.jpg''" w1]) (simp_all add: sample_matches fresh)
  have ne: "thumbnail_of ''a/x.jpg'' \<noteq> thumbnail_of ''b/x.jpg''"
    by (simp add: thumbnail_of_def filePath_def)
  from same_basename_overwrites[OF same run1 run2] same dest run1 run2 ne show ?thesis by simp
qed

section \<open>Further properties\<close>

text \<open>
  X1. A mapping whose member values are all primitives (or functions), with distinct
  keys none of which is \<open>__proto__\<close> or \<open>toString\<close>, is returned unchanged by the
  normalizer, on any stack with room for the call: on such inputs normalization is a
  no-op.
\<close>

theorem flat_mapping_unchanged:
  assumes "keys_ok ps" and "''toString'' \<notin> set (map fst ps)"
    and "list_all (\<lambda>m. copied (snd m)) ps"
  shows "makeFirestoreCompatible (Suc frames) (plain ps) = Inr (plain ps)"
proof -
  from assms(1,3) have "for_loop frames (ObjectPrototype, []) ps = Inr (ObjectPrototype, [] @ ps)"
    by (intro for_loop_copies) (simp_all add: keys_ok_def)
  moreover from assms(2) have "map_of ps ''toString'' = None"
    by (simp add: map_of_eq_None_iff)
  ultimately show ?thesis
    by (simp add: plain_def mfc_frames empty_object_def returned_def own_toString_def)
qed

theorem flat_mapping_unchanged_witness:
  "keys_ok [(''Make'', JStr ''Canon''), (''ImageWidth'', JNum 1920), (''Flash'', JNull)] \<and>
   ''toString'' \<notin> set (map fst
     [(''Make'', JStr ''Canon''), (''ImageWidth'', JNum 1920), (''Flash'', JNull)]) \<and>
   list_all (\<lambda>m. copied (snd m))
     [(''Make'', JStr ''Canon''), (''ImageWidth'', JNum 1920), (''Flash'', JNull)] \<and>
   makeFirestoreCompatible 1
     (plain [(''Make'', JStr ''Canon''), (''ImageWidth'', JNum 1920), (''Flash'', JNull)])
     = Inr (plain [(''Make'', JStr ''Canon''), (''ImageWidth'', JNum 1920), (''Flash'', JNull)])"
  using flat_mapping_unchanged[of
      "[(''Make'', JStr ''Canon''), (''ImageWidth'', JNum 1920), (''Flash'', JNull)]" 0]
  by (simp add: copied_def keys_ok_def)

text \<open>
  X2. When the normalizer returns for an object none of whose keys is \<open>__proto__\<close>, the
  keys of its result are exactly the keys of that object: no top-level key is dropped
  or added, whatever becomes of the member values.
\<close>

theorem top_level_keys_preserved:
  assumes "makeFirestoreCompatible frames (JObject t ps) = Inr r"
    and "''__proto__'' \<notin> set (map fst ps)"
  shows "fst ` set (for_in r) = fst ` set ps"
proof -
  from assms(1) obtain res where loop: "for_loop (frames - 1) empty_object ps = Inr res"
    and r: "r = returned res"
    by (auto simp: mfc_frames split: if_splits sum.splits)
  from for_loop_keys[OF loop assms(2)]
  have "fst res = ObjectPrototype" "fst ` set (snd res) = fst ` set ps"
    by (simp_all add: empty_object_def)
  with r show ?thesis by (simp add: returned_def Let_def)
qed

theorem top_level_keys_preserved_witness:
  "''__proto__'' \<notin> set (map fst [(''GPS'', plain [(''lat'', JNum 1)]), (''Make'', JStr ''Canon'')]) \<and>
   makeFirestoreCompatible 1
     (plain [(''GPS'', plain [(''lat'', JNum 1)]), (''Make'', JStr ''Canon'')])
     = Inr (plain [(''GPS'', JStr ''[object Object]''), (''Make'', JStr ''Canon'')]) \<and>
   fst ` set (for_in (plain [(''GPS'', JStr ''[object Object]''), (''Make'', JStr ''Canon'')]))
     = fst ` set [(''GPS'', plain [(''lat'', JNum 1)]), (''Make'', JStr ''Canon'')]"
proof -
  have run: "makeFirestoreCompatible 1
       (JObject (Returns (JStr ''[object Object]''))
          [(''GPS'', plain [(''lat'', JNum 1)]), (''Make'', JStr ''Canon'')])
     = Inr (plain [(''GPS'', JStr ''[object Object]''), (''Make'', JStr ''Canon'')])"
    by (simp add: plain_def mfc_frames result_defs)
  have "''__proto__'' \<notin> set (map fst [(''GPS'', plain [(''lat'', JNum 1)]), (''Make'', JStr ''Canon'')])"
    by simp
  from top_level_keys_preserved[OF run this] run show ?thesis by (simp add: plain_def)
qed

text \<open>
  X3. The scenario of key \<open>photos/sample.jpg\<close>: not recorded before and with every
  collaborator answering, it ends as \<open>Processed\<close> with exactly one record, its thumbnail
  uploaded as \<open>thumbnail-sample.jpg\<close> and its reformatted copy as
  \<open>processed-sample.jpg\<close>; the same key submitted again ends as \<open>Skipped\<close>.
\<close>

theorem sample_scenario:
  "fst (processImage env_ok (event_of ''photos/sample.jpg'') world0)
     = Inr (Processed (sample_entry ''photos/sample.jpg'')) \<and>
   image_logs (snd (processImage env_ok (event_of ''photos/sample.jpg'') world0))
     = [sample_entry ''photos/sample.jpg''] \<and>
   thumbnail_bucket (snd (processImage env_ok (event_of ''photos/sample.jpg'') world0))
     ''thumbnail-sample.jpg'' = Some (thumbnail_of ''photos/sample.jpg'') \<and>
   processed_bucket (snd (processImage env_ok (event_of ''photos/sample.jpg'') world0))
     ''processed-sample.jpg'' = Some (processed_of ''photos/sample.jpg'') \<and>
   fst (processImage env_ok (event_of ''photos/sample.jpg'')
         (snd (processImage env_ok (event_of ''photos/sample.jpg'') world0))) = Inr Skipped"
proof -
  obtain w' where run: "processImage env_ok (event_of ''photos/sample.jpg'') world0 =
      (Inr (Processed (sample_entry ''photos/sample.jpg'')), w')"
    and logs: "image_logs w' = image_logs world0 @ [sample_entry ''photos/sample.jpg'']"
    by (rule sample_run[of "''photos/sample.jpg''" world0])
       (simp_all add: sample_matches world0_def)
  have n: "name (event_of ''photos/sample.jpg'') = Some ''photos/sample.jpg''"
    by (simp add: event_of_def)
  have d: "thumbnailDestination ''photos/sample.jpg'' = ''thumbnail-sample.jpg''"
    "processedDestination ''photos/sample.jpg'' = ''processed-sample.jpg''"
    by (simp_all add: thumbnailDestination_def processedDestination_def basename_def pop_def)
  have again: "fst (processImage env_ok (event_of ''photos/sample.jpg'') w') = Inr Skipped"
    using logs
    by (simp add: processImage_def or_name_def falsy_name_def db_query_def event_of_def
          env_ok_def world0_def sample_entry_def logEntry_of_def)
  from processed_run[OF run n] run logs d again show ?thesis by (simp add: world0_def)
qed

text \<open>
  X4. A key named \<open>__proto__\<close> is not copied: \<open>result[key] = data[key]\<close> reaches the
  accessor of \<open>Object.prototype\<close>, which ignores a value that is neither an object nor
  \<open>null\<close>, so the key is missing from the result and the other keys are kept.
\<close>

theorem proto_key_dropped:
  "makeFirestoreCompatible (Suc frames) (plain [(''__proto__'', JNum 1), (''a'', JNum 2)])
     = Inr (plain [(''a'', JNum 2)])"
  by (simp add: plain_def mfc_frames result_defs)

end
